theory Spec2Isabelle
  imports Main
begin

section \<open>The OAuth core of mydata (src/core/oauth.ts)\<close>

text \<open>
  The module has three exported functions: \<open>startOAuthFlow\<close> (a local callback server
  racing against a timer), \<open>refreshAccessToken\<close> and \<open>updateEnvFile\<close>, and one
  private helper, \<open>exchangeCodeForTokens\<close>.

  Conventions of the embedding.
  \<^item> JavaScript strings are HOL strings. An optional field (\<open>x?: T\<close>) or a value that
    may be \<open>null\<close> is an \<open>option\<close>.
  \<^item> JavaScript numbers that count seconds, milliseconds, ports or HTTP statuses are
    integers here (\<open>int\<close> or \<open>nat\<close>); a \<open>Date\<close> is its time value in milliseconds.
    Their arithmetic is exact: fractional values and values beyond the range of exact
    integers and of valid dates are left out.
  \<^item> Library code (the WHATWG \<open>URL\<close> parser, \<open>fetch\<close>, the JSON parser, the HTTP
    server) is not part of the repository: its results enter the model as data (a parsed
    URL, a response with its status, text and decoded JSON).
  \<^item> A thrown \<open>Error\<close> is a value of the datatype \<open>flow_error\<close>, one constructor per
    \<open>new Error(...)\<close> of the source; \<open>message\<close> renders its text.
\<close>

subsection \<open>JavaScript truthiness and small string helpers\<close>

text \<open>\<open>if (s)\<close> on a \<open>string | null | undefined\<close>: false for null, undefined and \<open>""\<close>.\<close>

definition truthy :: "string option \<Rightarrow> bool" where
  "truthy s = (case s of None \<Rightarrow> False | Some t \<Rightarrow> t \<noteq> [])"

text \<open>\<open>a || b\<close> on optional strings.\<close>

definition or_else :: "string option \<Rightarrow> string option \<Rightarrow> string option" where
  "or_else a b = (if truthy a then a else b)"

text \<open>\<open>if (n)\<close> on a \<open>number | undefined\<close>: false for undefined and \<open>0\<close>.\<close>

definition truthy_num :: "int option \<Rightarrow> bool" where
  "truthy_num n = (case n of None \<Rightarrow> False | Some k \<Rightarrow> k \<noteq> 0)"

text \<open>\<open>Array.prototype.join\<close>.\<close>

fun join :: "string \<Rightarrow> string list \<Rightarrow> string" where
  "join sep [] = []"
| "join sep [x] = x"
| "join sep (x # y # zs) = x @ sep @ join sep (y # zs)"

text \<open>Decimal rendering of a non-negative integer, as a template literal does.\<close>

definition digit_char :: "nat \<Rightarrow> char" where
  "digit_char d = char_of (48 + d)"

function show_nat :: "nat \<Rightarrow> string" where
  "show_nat n = (if n < 10 then [digit_char n] else show_nat (n div 10) @ [digit_char (n mod 10)])"
  by pat_completeness auto
termination
  by (relation "measure id") auto

declare show_nat.simps [simp del]

subsection \<open>Configuration, tokens, errors\<close>

text \<open>A parsed URL: everything but the query, and the query's name-value pairs in order.\<close>

record URL =
  url_base :: string
  searchParams :: "(string \<times> string) list"

record OAuthConfig =
  serviceName :: string
  authorizationUrl :: URL
  tokenUrl :: string
  clientId :: string
  clientSecret :: string
  scopes :: "string list"
  scopeSeparator :: "string option"
  callbackPort :: "nat option"
  additionalParams :: "(string \<times> string) list option"

record OAuthTokens =
  accessToken :: string
  refreshToken :: "string option"
  expiresIn :: "int option"
  expiresAt :: "int option"
  tokenType :: "string option"
  scope :: "string option"

datatype flow_error =
    OAuthError string
  | NoAuthorizationCode
  | TokenExchangeFailed nat string
  | TokenRefreshFailed nat string
  | CallbackServerFailed string
  | FlowTimedOut
  | FetchThrew string

fun message :: "flow_error \<Rightarrow> string" where
  "message (OAuthError r) = ''OAuth error: '' @ r"
| "message NoAuthorizationCode = ''No authorization code received''"
| "message (TokenExchangeFailed st txt) = ''Token exchange failed: '' @ show_nat st @ '' '' @ txt"
| "message (TokenRefreshFailed st txt) = ''Token refresh failed: '' @ show_nat st @ '' '' @ txt"
| "message (CallbackServerFailed m) = ''Failed to start callback server: '' @ m"
| "message FlowTimedOut = ''OAuth flow timed out after 5 minutes''"
| "message (FetchThrew m) = m"

subsection \<open>The token endpoint\<close>

text \<open>The decoded JSON of a token response, with the field types the source casts it to.\<close>

record token_data =
  access_token :: string
  refresh_token :: "string option"
  expires_in :: "int option"
  token_type :: "string option"
  scope' :: "string option"

text \<open>
  What \<open>await fetch(...)\<close> gives: it throws (network failure), or it returns a response
  with a status, the text of the body (\<open>response.text()\<close>) and the body decoded as JSON
  (\<open>response.json()\<close>, which throws when the body is not JSON).
\<close>

datatype fetch_result =
    Threw string
  | Response nat string "string + token_data"

record http_request =
  req_method :: string
  req_url :: string
  req_content_type :: string
  req_body :: "(string \<times> string) list"

text \<open>\<open>response.ok\<close>: the status is in the range 200 to 299.\<close>

definition ok :: "nat \<Rightarrow> bool" where
  "ok st = (200 \<le> st \<and> st \<le> 299)"

text \<open>
  \<open>exchangeCodeForTokens\<close>, in two halves around the \<open>await\<close>: the request it sends, and
  what it makes of the response. \<open>now\<close> is the reading of \<open>Date.now()\<close> taken once the
  body has been decoded.
\<close>

definition exchange_request :: "OAuthConfig \<Rightarrow> string \<Rightarrow> string \<Rightarrow> http_request" where
  "exchange_request config code redirect =
     \<lparr>req_method = ''POST'',
      req_url = tokenUrl config,
      req_content_type = ''application/x-www-form-urlencoded'',
      req_body = [(''client_id'', clientId config),
                  (''client_secret'', clientSecret config),
                  (''code'', code),
                  (''grant_type'', ''authorization_code''),
                  (''redirect_uri'', redirect)]\<rparr>"

definition with_expiry :: "token_data \<Rightarrow> int \<Rightarrow> OAuthTokens \<Rightarrow> OAuthTokens" where
  "with_expiry d now tokens =
     (if truthy_num (expires_in d)
      then tokens\<lparr>expiresAt := Some (now + the (expires_in d) * 1000)\<rparr>
      else tokens)"

definition exchange_tokens :: "token_data \<Rightarrow> int \<Rightarrow> OAuthTokens" where
  "exchange_tokens d now =
     with_expiry d now
       \<lparr>accessToken = access_token d,
        refreshToken = refresh_token d,
        expiresIn = expires_in d,
        expiresAt = None,
        tokenType = token_type d,
        scope = scope' d\<rparr>"

fun exchangeCodeForTokens :: "fetch_result \<Rightarrow> int \<Rightarrow> flow_error + OAuthTokens" where
  "exchangeCodeForTokens (Threw m) now = Inl (FetchThrew m)"
| "exchangeCodeForTokens (Response st txt js) now =
     (if \<not> ok st then Inl (TokenExchangeFailed st txt)
      else case js of
             Inl m \<Rightarrow> Inl (FetchThrew m)
           | Inr d \<Rightarrow> Inr (exchange_tokens d now))"

text \<open>\<open>refreshAccessToken\<close>, split the same way.\<close>

definition refresh_request :: "string \<Rightarrow> string \<Rightarrow> string \<Rightarrow> string \<Rightarrow> http_request" where
  "refresh_request url cid secret rtoken =
     \<lparr>req_method = ''POST'',
      req_url = url,
      req_content_type = ''application/x-www-form-urlencoded'',
      req_body = [(''client_id'', cid),
                  (''client_secret'', secret),
                  (''grant_type'', ''refresh_token''),
                  (''refresh_token'', rtoken)]\<rparr>"

definition refresh_tokens :: "string \<Rightarrow> token_data \<Rightarrow> int \<Rightarrow> OAuthTokens" where
  "refresh_tokens rtoken d now =
     with_expiry d now
       \<lparr>accessToken = access_token d,
        refreshToken = or_else (refresh_token d) (Some rtoken),
        expiresIn = expires_in d,
        expiresAt = None,
        tokenType = token_type d,
        scope = scope' d\<rparr>"

fun refreshAccessToken :: "string \<Rightarrow> fetch_result \<Rightarrow> int \<Rightarrow> flow_error + OAuthTokens" where
  "refreshAccessToken rtoken (Threw m) now = Inl (FetchThrew m)"
| "refreshAccessToken rtoken (Response st txt js) now =
     (if \<not> ok st then Inl (TokenRefreshFailed st txt)
      else case js of
             Inl m \<Rightarrow> Inl (FetchThrew m)
           | Inr d \<Rightarrow> Inr (refresh_tokens rtoken d now))"

subsection \<open>The authorization URL\<close>

text \<open>\<open>URLSearchParams.get\<close>: the value of the first pair with that name, or null.\<close>

definition sp_get :: "string \<Rightarrow> (string \<times> string) list \<Rightarrow> string option" where
  "sp_get name ps = map_of ps name"

text \<open>
  \<open>URLSearchParams.set\<close>: the first pair with that name takes the value and the other
  pairs with that name are removed; with no such pair, the pair is appended.
\<close>

fun sp_set :: "string \<Rightarrow> string \<Rightarrow> (string \<times> string) list \<Rightarrow> (string \<times> string) list" where
  "sp_set name v [] = [(name, v)]"
| "sp_set name v (p # ps) =
     (if fst p = name then (name, v) # filter (\<lambda>q. fst q \<noteq> name) ps
      else p # sp_set name v ps)"

definition url_set :: "string \<Rightarrow> string \<Rightarrow> URL \<Rightarrow> URL" where
  "url_set name v u = u\<lparr>searchParams := sp_set name v (searchParams u)\<rparr>"

text \<open>\<open>config.callbackPort || 8765\<close>: an unset port and port 0 both give the default.\<close>

definition port_of :: "OAuthConfig \<Rightarrow> nat" where
  "port_of config =
     (case callbackPort config of None \<Rightarrow> 8765 | Some p \<Rightarrow> if p = 0 then 8765 else p)"

definition redirectUri :: "OAuthConfig \<Rightarrow> string" where
  "redirectUri config = ''http://localhost:'' @ show_nat (port_of config) @ ''/callback''"

text \<open>The three parameters that are always set (lines 132 to 135).\<close>

definition standard_params :: "OAuthConfig \<Rightarrow> URL" where
  "standard_params config =
     url_set ''response_type'' ''code''
       (url_set ''redirect_uri'' (redirectUri config)
          (url_set ''client_id'' (clientId config) (authorizationUrl config)))"

text \<open>The scope, when there is one (lines 137 to 140); \<open>??\<close> keeps an empty separator.\<close>

definition separator :: "OAuthConfig \<Rightarrow> string" where
  "separator config = (case scopeSeparator config of None \<Rightarrow> '' '' | Some s \<Rightarrow> s)"

definition scope_param :: "OAuthConfig \<Rightarrow> URL \<Rightarrow> URL" where
  "scope_param config u =
     (if scopes config \<noteq> [] then url_set ''scope'' (join (separator config) (scopes config)) u
      else u)"

text \<open>
  The additional parameters (lines 142 to 146): nothing when the field is unset, else one
  \<open>set\<close> per pair of the record, in the order \<open>Object.entries\<close> gives them.
\<close>

definition additional :: "OAuthConfig \<Rightarrow> URL \<Rightarrow> URL" where
  "additional config u =
     (case additionalParams config of
        None \<Rightarrow> u
      | Some ps \<Rightarrow> foldl (\<lambda>w (k, v). url_set k v w) u ps)"

definition authUrl :: "OAuthConfig \<Rightarrow> URL" where
  "authUrl config = additional config (scope_param config (standard_params config))"

subsection \<open>The flow: one promise, one server, one timer\<close>

text \<open>
  A request as the handler sees it, after \<open>new URL(req.url || "/", base)\<close>: the path and
  the query pairs.
\<close>

record request =
  pathname :: string
  query :: "(string \<times> string) list"

text \<open>The pages written to the browser, by their heading and interpolated text.\<close>

datatype page =
    AuthorizationFailedPage string
  | MissingCodePage
  | SuccessPage string
  | ExchangeFailedPage string
  | NotFound

text \<open>
  What the flow does to the outside, in the order it does it: \<open>Respond i st p\<close> answers
  request \<open>i\<close>; \<open>Close\<close> is a call of \<open>server.close()\<close>; \<open>Resolve\<close> and \<open>Reject\<close>
  are calls of the promise's two functions; \<open>Fetch\<close> is a POST sent; \<open>OpenBrowser\<close> is
  the call of \<open>open\<close>. The \<open>console.log\<close> lines are left out.
\<close>

datatype effect =
    Respond nat nat page
  | Close
  | Resolve OAuthTokens
  | Reject flow_error
  | Fetch http_request
  | OpenBrowser URL

text \<open>
  The state of one flow: whether the server accepts connections, how many requests the
  handler has taken, which of them are suspended at \<open>await exchangeCodeForTokens\<close>, and
  the effects so far.
\<close>

record flow =
  listening :: bool
  served :: nat
  awaiting :: "nat list"
  effects :: "effect list"

definition init_flow :: flow where
  "init_flow = \<lparr>listening = False, served = 0, awaiting = [], effects = []\<rparr>"

definition emit :: "effect \<Rightarrow> flow \<Rightarrow> flow" where
  "emit e s = s\<lparr>effects := effects s @ [e]\<rparr>"

definition close :: "flow \<Rightarrow> flow" where
  "close s = emit Close (s\<lparr>listening := False\<rparr>)"

text \<open>The request handler up to its first \<open>await\<close> (lines 53 to 95 and 124 to 127).\<close>

definition handler :: "OAuthConfig \<Rightarrow> request \<Rightarrow> flow \<Rightarrow> flow" where
  "handler config req s =
     (let i = served s; s1 = s\<lparr>served := Suc i\<rparr> in
      if pathname req = ''/callback'' then
        (let code = sp_get ''code'' (query req);
             error = sp_get ''error'' (query req);
             errorDescription = sp_get ''error_description'' (query req) in
         if truthy error then
           emit (Reject (OAuthError (the (or_else errorDescription error))))
             (close (emit (Respond i 400
                (AuthorizationFailedPage (the (or_else errorDescription error)))) s1))
         else if \<not> truthy code then
           emit (Reject NoAuthorizationCode) (close (emit (Respond i 400 MissingCodePage) s1))
         else
           (emit (Fetch (exchange_request config (the code) (redirectUri config))) s1)
             \<lparr>awaiting := awaiting s1 @ [i]\<rparr>)
      else emit (Respond i 404 NotFound) s1)"

text \<open>
  The rest of the handler of request \<open>i\<close>, run when its token request has settled
  (lines 95 to 123).
\<close>

definition resume :: "OAuthConfig \<Rightarrow> nat \<Rightarrow> fetch_result \<Rightarrow> int \<Rightarrow> flow \<Rightarrow> flow" where
  "resume config i r now s =
     (if i \<notin> set (awaiting s) then s
      else
        (let s1 = s\<lparr>awaiting := remove1 i (awaiting s)\<rparr> in
         case exchangeCodeForTokens r now of
           Inr tokens \<Rightarrow>
             emit (Resolve tokens) (close (emit (Respond i 200 (SuccessPage (serviceName config))) s1))
         | Inl e \<Rightarrow>
             emit (Reject e) (close (emit (Respond i 500 (ExchangeFailedPage (message e))) s1))))"

text \<open>The listen callback (lines 130 to 153), the error listener and the timer.\<close>

definition on_listening :: "OAuthConfig \<Rightarrow> flow \<Rightarrow> flow" where
  "on_listening config s = emit (OpenBrowser (authUrl config)) (s\<lparr>listening := True\<rparr>)"

definition on_error :: "string \<Rightarrow> flow \<Rightarrow> flow" where
  "on_error m s = emit (Reject (CallbackServerFailed m)) s"

definition on_timeout :: "flow \<Rightarrow> flow" where
  "on_timeout s = emit (Reject FlowTimedOut) (close s)"

text \<open>
  What the event loop can deliver to the flow: the server has bound its port, the server
  has reported an error, a request has arrived, the token request of a suspended handler
  has settled (with the clock's reading), the five minutes are over.
\<close>

datatype event =
    Listening
  | ServerError string
  | Request request
  | FetchSettled nat fetch_result int
  | Timeout

fun step :: "OAuthConfig \<Rightarrow> event \<Rightarrow> flow \<Rightarrow> flow" where
  "step config Listening s = on_listening config s"
| "step config (ServerError m) s = on_error m s"
| "step config (Request req) s = handler config req s"
| "step config (FetchSettled i r now) s = resume config i r now s"
| "step config Timeout s = on_timeout s"

fun run :: "OAuthConfig \<Rightarrow> event list \<Rightarrow> flow \<Rightarrow> flow" where
  "run config [] s = s"
| "run config (ev # evs) s = run config evs (step config ev s)"

text \<open>
  A promise keeps the first call of \<open>resolve\<close> or \<open>reject\<close> and ignores the later ones:
  the outcome of the flow is the first such call among its effects.
\<close>

datatype outcome = Resolved OAuthTokens | Rejected flow_error

fun first_settle :: "effect list \<Rightarrow> outcome option" where
  "first_settle [] = None"
| "first_settle (Resolve t # es) = Some (Resolved t)"
| "first_settle (Reject e # es) = Some (Rejected e)"
| "first_settle (_ # es) = first_settle es"

definition outcome :: "flow \<Rightarrow> outcome option" where
  "outcome s = first_settle (effects s)"

fun fetches :: "effect list \<Rightarrow> http_request list" where
  "fetches [] = []"
| "fetches (Fetch r # es) = r # fetches es"
| "fetches (_ # es) = fetches es"

text \<open>\<open>server.close()\<close> is called before any call of \<open>resolve\<close> or \<open>reject\<close>.\<close>

fun closed_before_settle :: "effect list \<Rightarrow> bool" where
  "closed_before_settle [] = False"
| "closed_before_settle (Close # es) = True"
| "closed_before_settle (Resolve t # es) = False"
| "closed_before_settle (Reject e # es) = False"
| "closed_before_settle (_ # es) = closed_before_settle es"

definition closes :: "effect list \<Rightarrow> nat" where
  "closes es = length (filter (\<lambda>e. e = Close) es)"

text \<open>The code of a request that reaches the token exchange, if it is one.\<close>

definition exchanged_code :: "event \<Rightarrow> string option" where
  "exchanged_code ev =
     (case ev of
        Request req \<Rightarrow>
          (if pathname req = ''/callback'' \<and> \<not> truthy (sp_get ''error'' (query req))
              \<and> truthy (sp_get ''code'' (query req))
           then sp_get ''code'' (query req) else None)
      | _ \<Rightarrow> None)"

text \<open>An event that is neither a callback nor an error: the bind, or a request elsewhere.\<close>

definition idle :: "event \<Rightarrow> bool" where
  "idle ev =
     (case ev of Listening \<Rightarrow> True | Request req \<Rightarrow> pathname req \<noteq> ''/callback'' | _ \<Rightarrow> False)"

subsection \<open>The settings file\<close>

definition newline :: char where
  "newline = CHR 0x0A"

text \<open>\<open>content.split("\n")\<close>: never empty; a text that ends in a newline ends in an empty line.\<close>

fun split_nl :: "string \<Rightarrow> string list" where
  "split_nl [] = [[]]"
| "split_nl (c # cs) =
     (if c = newline then [] # split_nl cs
      else (c # hd (split_nl cs)) # tl (split_nl cs))"

definition startsWith :: "string \<Rightarrow> string \<Rightarrow> bool" where
  "startsWith s p = (take (length p) s = p)"

text \<open>
  The characters \<open>trim\<close> removes (white space and line terminators), among the
  characters a HOL string has: tab, line feed, vertical tab, form feed, carriage return,
  space, no-break space.
\<close>

definition is_space :: "char \<Rightarrow> bool" where
  "is_space c = ((of_char c :: nat) \<in> set [9, 10, 11, 12, 13, 32, 160])"

definition trim :: "string \<Rightarrow> string" where
  "trim s = rev (dropWhile is_space (rev (dropWhile is_space s)))"

text \<open>The \<open>while\<close> loop that pops the trailing blank lines (lines 290 to 292).\<close>

function pop_trailing :: "string list \<Rightarrow> string list" where
  "pop_trailing ls =
     (if ls \<noteq> [] \<and> trim (last ls) = [] then pop_trailing (butlast ls) else ls)"
  by pat_completeness auto
termination
  by (relation "measure length") auto

declare pop_trailing.simps [simp del]

text \<open>The test of the filter (line 286): the line starts with \<open>key=\<close> or \<open>key =\<close>.\<close>

definition mentions :: "string \<Rightarrow> string \<Rightarrow> bool" where
  "mentions key line = (startsWith line (key @ ''='') \<or> startsWith line (key @ '' =''))"

definition assignment :: "string \<times> string \<Rightarrow> string" where
  "assignment kv = fst kv @ ''='' @ snd kv"

text \<open>
  \<open>updateEnvFile\<close>. The file at \<open>filePath\<close> is \<open>None\<close> when it does not exist and its
  text otherwise; the result is the text written back. The updates are the pairs of the
  record in the order \<open>Object.entries\<close> gives them.
\<close>

definition kept_lines :: "string list \<Rightarrow> string option \<Rightarrow> string list" where
  "kept_lines keysToUpdate file =
     (case file of
        None \<Rightarrow> []
      | Some content \<Rightarrow>
          pop_trailing
            (filter (\<lambda>line. \<not> list_ex (\<lambda>key. mentions key line) keysToUpdate)
               (split_nl content)))"

definition updateEnvFile :: "(string \<times> string) list \<Rightarrow> string option \<Rightarrow> string" where
  "updateEnvFile updates file =
     (let keysToUpdate = map fst updates;
          ls = kept_lines keysToUpdate file @ map assignment updates
      in join [newline] ls @ [newline])"

subsection \<open>Sample data\<close>

text \<open>
  The configuration the Strava integration passes to \<open>startOAuthFlow\<close>, with sample
  credentials, and a few requests and token responses.
\<close>

definition strava_config :: OAuthConfig where
  "strava_config =
     \<lparr>serviceName = ''Strava'',
      authorizationUrl = \<lparr>url_base = ''https://www.strava.com/oauth/authorize'', searchParams = []\<rparr>,
      tokenUrl = ''https://www.strava.com/oauth/token'',
      clientId = ''12345'',
      clientSecret = ''s3cret'',
      scopes = [''read'', ''activity:read_all''],
      scopeSeparator = Some '','',
      callbackPort = None,
      additionalParams = Some [(''approval_prompt'', ''auto'')]\<rparr>"

text \<open>The same configuration with an additional parameter that names \<open>redirect_uri\<close>.\<close>

definition override_config :: OAuthConfig where
  "override_config = strava_config\<lparr>additionalParams := Some [(''redirect_uri'', ''https://example.com/cb'')]\<rparr>"

definition callback :: "(string \<times> string) list \<Rightarrow> request" where
  "callback q = \<lparr>pathname = ''/callback'', query = q\<rparr>"

definition token_json :: "string \<Rightarrow> string option \<Rightarrow> int option \<Rightarrow> token_data" where
  "token_json a r e =
     \<lparr>access_token = a, refresh_token = r, expires_in = e, token_type = None, scope' = None\<rparr>"

section \<open>Properties of the token functions\<close>

lemma with_expiry_fields [simp]:
  "accessToken (with_expiry d now t) = accessToken t"
  "refreshToken (with_expiry d now t) = refreshToken t"
  "expiresIn (with_expiry d now t) = expiresIn t"
  by (simp_all add: with_expiry_def)

lemma with_expiry_expiresAt:
  "expiresAt t = None \<Longrightarrow>
   expiresAt (with_expiry d now t) =
     (case expires_in d of None \<Rightarrow> None | Some k \<Rightarrow> if k = 0 then None else Some (now + k * 1000))"
  by (simp add: with_expiry_def truthy_num_def split: option.splits)

text \<open>
  Claim C2, as the code has it. When the token endpoint answers a refresh with a 2xx status
  and a JSON body, the returned \<open>refreshToken\<close> is the response's \<open>refresh_token\<close> if
  that is a non-empty string, and the input refresh token otherwise; in particular a
  response that omits the field gives back the input token.
\<close>

theorem refresh_token_fallback:
  assumes "ok st"
  shows "\<exists>t. refreshAccessToken R (Response st txt (Inr d)) now = Inr t
           \<and> refreshToken t = (if truthy (refresh_token d) then refresh_token d else Some R)"
  using assms by (simp add: refresh_tokens_def or_else_def)

theorem refresh_token_fallback_witness:
  "ok 200 \<and>
   (\<exists>t. refreshAccessToken ''R1'' (Response 200 [] (Inr (token_json ''T2'' None None))) 0 = Inr t
       \<and> refreshToken t = Some ''R1'')"
proof -
  have h: "ok 200" by (simp add: ok_def)
  show ?thesis
    using h refresh_token_fallback [OF h, of "''R1''" "[]" "token_json ''T2'' None None" 0]
    by (simp add: truthy_def token_json_def)
qed

text \<open>
  Claim C2 as stated fails where the response includes a \<open>refresh_token\<close> that is the
  empty string: the value returned is the input token \<open>R1\<close>, not the response's value.
\<close>

theorem refresh_token_included_counterexample:
  "refreshAccessToken ''R1'' (Response 200 [] (Inr (token_json ''T2'' (Some []) None))) 0
   = Inr \<lparr>accessToken = ''T2'', refreshToken = Some ''R1'', expiresIn = None,
          expiresAt = None, tokenType = None, scope = None\<rparr>"
  by (simp add: ok_def refresh_tokens_def or_else_def truthy_def with_expiry_def
      truthy_num_def token_json_def)

text \<open>
  Claim C10. When the token endpoint answers a refresh with a 2xx status and a
  \<open>refresh_token\<close> that is falsy (absent, or the empty string), the returned
  \<open>refreshToken\<close> is the input refresh token.
\<close>

theorem refresh_falsy_token_falls_back:
  assumes "ok st" and "\<not> truthy (refresh_token d)"
  shows "\<exists>t. refreshAccessToken R (Response st txt (Inr d)) now = Inr t \<and> refreshToken t = Some R"
  using assms by (simp add: refresh_tokens_def or_else_def)

theorem refresh_falsy_token_falls_back_witness:
  "ok 200 \<and> \<not> truthy (refresh_token (token_json ''T2'' (Some []) None)) \<and>
   (\<exists>t. refreshAccessToken ''R1'' (Response 200 [] (Inr (token_json ''T2'' (Some []) None))) 0 = Inr t
       \<and> refreshToken t = Some ''R1'')"
proof -
  have h1: "ok 200" by (simp add: ok_def)
  have h2: "\<not> truthy (refresh_token (token_json ''T2'' (Some []) None))"
    by (simp add: truthy_def token_json_def)
  show ?thesis
    using h1 h2 refresh_falsy_token_falls_back [OF h1 h2, of "''R1''" "[]" 0] by simp
qed

text \<open>
  Claim C3, as the code has it. After a successful exchange or refresh, \<open>expiresAt\<close> is
  defined if and only if the response's \<open>expires_in\<close> is present and not zero, and it
  is then the clock's reading plus \<open>expires_in\<close> seconds (in milliseconds); when
  \<open>expires_in\<close> is absent or zero, \<open>expiresAt\<close> is absent. \<open>expiresIn\<close> is the
  response's value in every case.
\<close>

theorem expiresAt_derived:
  assumes "ok st"
  shows "\<exists>t u. exchangeCodeForTokens (Response st txt (Inr d)) now = Inr t
             \<and> refreshAccessToken R (Response st txt (Inr d)) now = Inr u
             \<and> expiresIn t = expires_in d \<and> expiresIn u = expires_in d
             \<and> expiresAt t = (case expires_in d of None \<Rightarrow> None
                               | Some k \<Rightarrow> if k = 0 then None else Some (now + k * 1000))
             \<and> expiresAt u = expiresAt t"
  using assms
  by (simp add: exchange_tokens_def refresh_tokens_def with_expiry_expiresAt)

theorem expiresAt_derived_witness:
  "ok 200 \<and>
   (\<exists>t u. exchangeCodeForTokens (Response 200 [] (Inr (token_json ''T'' None (Some 3600)))) 1000000 = Inr t
         \<and> refreshAccessToken ''R1'' (Response 200 [] (Inr (token_json ''T'' None (Some 3600)))) 1000000 = Inr u
         \<and> expiresIn t = Some 3600 \<and> expiresIn u = Some 3600
         \<and> expiresAt t = Some 4600000 \<and> expiresAt u = expiresAt t)"
proof -
  have h: "ok 200" by (simp add: ok_def)
  show ?thesis
    using h expiresAt_derived [OF h, of "[]" "token_json ''T'' None (Some 3600)" 1000000 "''R1''"]
    by (simp add: token_json_def)
qed

text \<open>
  Claim C3 as stated fails where the response contains \<open>expires_in\<close> with the value 0:
  the field is there (and \<open>expiresIn\<close> is 0), yet \<open>expiresAt\<close> is absent.
\<close>

theorem expiresAt_zero_counterexample:
  "exchangeCodeForTokens (Response 200 [] (Inr (token_json ''T'' None (Some 0)))) 1000000
   = Inr \<lparr>accessToken = ''T'', refreshToken = None, expiresIn = Some 0,
          expiresAt = None, tokenType = None, scope = None\<rparr>"
  by (simp add: ok_def exchange_tokens_def with_expiry_def truthy_num_def token_json_def)

section \<open>Properties of the authorization URL\<close>

lemma map_of_filter_other:
  "k' \<noteq> k \<Longrightarrow> map_of (filter (\<lambda>q. fst q \<noteq> k) ps) k' = map_of ps k'"
  by (induction ps) auto

lemma sp_get_sp_set: "sp_get k' (sp_set k v ps) = (if k' = k then Some v else sp_get k' ps)"
  by (induction ps) (auto simp: sp_get_def map_of_filter_other)

lemma url_get_url_set:
  "sp_get k' (searchParams (url_set k v u)) = (if k' = k then Some v else sp_get k' (searchParams u))"
  by (simp add: url_set_def sp_get_sp_set)

lemma url_base_url_set [simp]: "url_base (url_set k v u) = url_base u"
  by (simp add: url_set_def)

lemma url_base_foldl_set [simp]:
  "url_base (foldl (\<lambda>w (k, v). url_set k v w) u ps) = url_base u"
  by (induction ps arbitrary: u) auto

text \<open>After a run of \<open>set\<close> calls the last value given to a name is the one found.\<close>

lemma url_get_foldl_set:
  "sp_get k (searchParams (foldl (\<lambda>w (k, v). url_set k v w) u ps)) =
     (case map_of (rev ps) k of Some v \<Rightarrow> Some v | None \<Rightarrow> sp_get k (searchParams u))"
proof (induction ps arbitrary: u)
  case Nil
  show ?case by simp
next
  case (Cons p ps)
  obtain a b where p: "p = (a, b)" by (cases p)
  show ?case
    by (simp add: Cons.IH p url_get_url_set map_add_def split: option.splits)
qed

text \<open>The value of a name in the authorization URL.\<close>

lemma additional_lookup:
  "sp_get k (searchParams (additional config u)) =
     (case (case additionalParams config of None \<Rightarrow> None | Some ps \<Rightarrow> map_of (rev ps) k) of
        Some v \<Rightarrow> Some v
      | None \<Rightarrow> sp_get k (searchParams u))"
  by (cases "additionalParams config") (simp_all add: additional_def url_get_foldl_set)

lemma standard_lookup:
  "sp_get k (searchParams (scope_param config (standard_params config))) =
     (if k = ''scope'' \<and> scopes config \<noteq> []
      then Some (join (case scopeSeparator config of None \<Rightarrow> '' '' | Some s \<Rightarrow> s) (scopes config))
      else if k = ''response_type'' then Some ''code''
      else if k = ''redirect_uri'' then Some (redirectUri config)
      else if k = ''client_id'' then Some (clientId config)
      else sp_get k (searchParams (authorizationUrl config)))"
  by (simp add: scope_param_def standard_params_def separator_def url_get_url_set)

lemma authUrl_lookup:
  "sp_get k (searchParams (authUrl config)) =
     (case (case additionalParams config of None \<Rightarrow> None | Some ps \<Rightarrow> map_of (rev ps) k) of
        Some v \<Rightarrow> Some v
      | None \<Rightarrow>
          if k = ''scope'' \<and> scopes config \<noteq> []
          then Some (join (case scopeSeparator config of None \<Rightarrow> '' '' | Some s \<Rightarrow> s) (scopes config))
          else if k = ''response_type'' then Some ''code''
          else if k = ''redirect_uri'' then Some (redirectUri config)
          else if k = ''client_id'' then Some (clientId config)
          else sp_get k (searchParams (authorizationUrl config)))"
  unfolding authUrl_def additional_lookup standard_lookup by (rule refl)

lemma url_base_authUrl: "url_base (authUrl config) = url_base (authorizationUrl config)"
  by (simp add: authUrl_def additional_def scope_param_def standard_params_def split: option.splits)

text \<open>
  Claim C5. The authorization URL is \<open>authorizationUrl\<close> with its query changed as
  follows. Every pair of \<open>additionalParams\<close> is in the URL: a name among the additional
  parameters has the value given there (the last one, should the list name it twice),
  also when the name is one of the standard parameters. A name that is not among them is
  looked up as follows: \<open>scope\<close> is the scopes joined by the separator (a single space
  when none is configured) if there are scopes, and is not set by the flow if there are
  none; \<open>response_type\<close> is \<open>code\<close>; \<open>redirect_uri\<close> and \<open>client_id\<close> are the
  flow's redirect URI and the client id; every other name is as in \<open>authorizationUrl\<close>.
\<close>

theorem authUrl_parameters:
  "url_base (authUrl config) = url_base (authorizationUrl config)
   \<and> (additionalParams config = Some ps \<and> distinct (map fst ps) \<and> (a, b) \<in> set ps
        \<longrightarrow> sp_get a (searchParams (authUrl config)) = Some b)
   \<and> sp_get k (searchParams (authUrl config)) =
     (case (case additionalParams config of None \<Rightarrow> None | Some ps \<Rightarrow> map_of (rev ps) k) of
        Some v \<Rightarrow> Some v
      | None \<Rightarrow>
          if k = ''scope'' \<and> scopes config \<noteq> []
          then Some (join (case scopeSeparator config of None \<Rightarrow> '' '' | Some s \<Rightarrow> s) (scopes config))
          else if k = ''response_type'' then Some ''code''
          else if k = ''redirect_uri'' then Some (redirectUri config)
          else if k = ''client_id'' then Some (clientId config)
          else sp_get k (searchParams (authorizationUrl config)))"
proof -
  have "sp_get a (searchParams (authUrl config)) = Some b"
    if "additionalParams config = Some ps" "distinct (map fst ps)" "(a, b) \<in> set ps"
  proof -
    have "map_of (rev ps) a = Some b"
      using that(2,3) by (intro map_of_is_SomeI) (simp_all add: rev_map [symmetric])
    then show ?thesis using that(1) by (simp add: authUrl_lookup)
  qed
  then show ?thesis
    using authUrl_lookup [of k config] url_base_authUrl [of config] by blast
qed

theorem authUrl_parameters_witness:
  "url_base (authUrl strava_config) = ''https://www.strava.com/oauth/authorize''
   \<and> sp_get ''approval_prompt'' (searchParams (authUrl strava_config)) = Some ''auto''
   \<and> sp_get ''scope'' (searchParams (authUrl strava_config)) = Some ''read,activity:read_all''
   \<and> sp_get ''response_type'' (searchParams (authUrl strava_config)) = Some ''code''
   \<and> sp_get ''client_id'' (searchParams (authUrl strava_config)) = Some ''12345''
   \<and> sp_get ''redirect_uri'' (searchParams (authUrl strava_config)) = Some (redirectUri strava_config)
   \<and> sp_get ''redirect_uri'' (searchParams (authUrl override_config)) = Some ''https://example.com/cb''"
proof -
  have p: "additionalParams strava_config = Some [(''approval_prompt'', ''auto'')]
      \<and> distinct (map fst [(''approval_prompt'', ''auto'')])
      \<and> (''approval_prompt'', ''auto'') \<in> set [(''approval_prompt'', ''auto'')]"
    by (simp add: strava_config_def)
  show ?thesis
    using p
      authUrl_parameters [of strava_config "[(''approval_prompt'', ''auto'')]"
        "''approval_prompt''" "''auto''" "''scope''"]
      authUrl_parameters [of strava_config "[(''approval_prompt'', ''auto'')]"
        "''approval_prompt''" "''auto''" "''response_type''"]
      authUrl_parameters [of strava_config "[(''approval_prompt'', ''auto'')]"
        "''approval_prompt''" "''auto''" "''client_id''"]
      authUrl_parameters [of strava_config "[(''approval_prompt'', ''auto'')]"
        "''approval_prompt''" "''auto''" "''redirect_uri''"]
      authUrl_parameters [of override_config "[(''redirect_uri'', ''https://example.com/cb'')]"
        "''redirect_uri''" "''https://example.com/cb''" "''redirect_uri''"]
    by (simp add: strava_config_def override_config_def)
qed

section \<open>Properties of the flow\<close>

subsection \<open>What each event appends\<close>

lemma emit_simps [simp]:
  "effects (emit e s) = effects s @ [e]"
  "listening (emit e s) = listening s"
  "served (emit e s) = served s"
  "awaiting (emit e s) = awaiting s"
  by (simp_all add: emit_def)

lemma close_simps [simp]:
  "effects (close s) = effects s @ [Close]"
  "listening (close s) = False"
  "served (close s) = served s"
  "awaiting (close s) = awaiting s"
  by (simp_all add: close_def)

lemma handler_elsewhere:
  "pathname req \<noteq> ''/callback'' \<Longrightarrow>
   handler config req s = s\<lparr>served := Suc (served s), effects := effects s @ [Respond (served s) 404 NotFound]\<rparr>"
  by (simp add: handler_def Let_def emit_def)

lemma handler_denied:
  "pathname req = ''/callback'' \<Longrightarrow> truthy (sp_get ''error'' (query req)) \<Longrightarrow>
   effects (handler config req s) =
     effects s @ [Respond (served s) 400
                    (AuthorizationFailedPage
                       (the (or_else (sp_get ''error_description'' (query req)) (sp_get ''error'' (query req))))),
                  Close,
                  Reject (OAuthError
                       (the (or_else (sp_get ''error_description'' (query req)) (sp_get ''error'' (query req)))))]"
  by (simp add: handler_def Let_def)

lemma handler_missing:
  "pathname req = ''/callback'' \<Longrightarrow> \<not> truthy (sp_get ''error'' (query req)) \<Longrightarrow>
   \<not> truthy (sp_get ''code'' (query req)) \<Longrightarrow>
   effects (handler config req s) =
     effects s @ [Respond (served s) 400 MissingCodePage, Close, Reject NoAuthorizationCode]"
  by (simp add: handler_def Let_def)

lemma handler_code:
  "pathname req = ''/callback'' \<Longrightarrow> \<not> truthy (sp_get ''error'' (query req)) \<Longrightarrow>
   truthy (sp_get ''code'' (query req)) \<Longrightarrow>
   handler config req s =
     s\<lparr>served := Suc (served s), awaiting := awaiting s @ [served s],
       effects := effects s @ [Fetch (exchange_request config (the (sp_get ''code'' (query req))) (redirectUri config))]\<rparr>"
  by (simp add: handler_def Let_def emit_def)

lemma resume_unknown: "i \<notin> set (awaiting s) \<Longrightarrow> resume config i r now s = s"
  by (simp add: resume_def)

lemma resume_effects:
  "i \<in> set (awaiting s) \<Longrightarrow>
   effects (resume config i r now s) =
     effects s @
       (case exchangeCodeForTokens r now of
          Inr tokens \<Rightarrow> [Respond i 200 (SuccessPage (serviceName config)), Close, Resolve tokens]
        | Inl e \<Rightarrow> [Respond i 500 (ExchangeFailedPage (message e)), Close, Reject e])"
  by (simp add: resume_def Let_def split: sum.splits)

lemma first_settle_append:
  "first_settle (xs @ ys) = (case first_settle xs of Some out \<Rightarrow> Some out | None \<Rightarrow> first_settle ys)"
  by (induction xs rule: first_settle.induct) auto

lemma fetches_append: "fetches (xs @ ys) = fetches xs @ fetches ys"
  by (induction xs rule: fetches.induct) auto

lemma closed_before_settle_append:
  "closed_before_settle (xs @ ys) =
     (closed_before_settle xs \<or> (first_settle xs = None \<and> closed_before_settle ys))"
  by (induction xs rule: closed_before_settle.induct) auto

lemma run_append: "run config (evs @ later) s = run config later (run config evs s)"
  by (induction evs arbitrary: s) auto

lemma step_appends: "\<exists>es. effects (step config ev s) = effects s @ es"
proof (cases ev)
  case (Request req)
  show ?thesis
    using handler_elsewhere [where req=req and config=config and s=s]
      handler_denied [where req=req and config=config and s=s]
      handler_missing [where req=req and config=config and s=s]
      handler_code [where req=req and config=config and s=s] Request
    by (cases "pathname req = ''/callback''"; cases "truthy (sp_get ''error'' (query req))";
        cases "truthy (sp_get ''code'' (query req))") auto
next
  case (FetchSettled i r now)
  then show ?thesis
    using resume_unknown [where i=i and s=s and config=config and r=r and now=now]
      resume_effects [where i=i and s=s and config=config and r=r and now=now]
    by (cases "i \<in> set (awaiting s)") auto
qed (auto simp: on_listening_def on_error_def on_timeout_def)

lemma run_appends: "\<exists>es. effects (run config evs s) = effects s @ es"
proof (induction evs arbitrary: s)
  case Nil
  show ?case by simp
next
  case (Cons ev evs)
  obtain es where 1: "effects (step config ev s) = effects s @ es"
    using step_appends by blast
  obtain es' where 2: "effects (run config evs (step config ev s)) = effects (step config ev s) @ es'"
    using Cons.IH by blast
  show ?case using 1 2 by simp
qed

text \<open>Once the promise has settled, nothing that follows changes its outcome.\<close>

lemma outcome_stable:
  assumes "outcome (run config evs s) = Some out"
  shows "outcome (run config (evs @ later) s) = Some out"
proof -
  obtain es where "effects (run config later (run config evs s)) = effects (run config evs s) @ es"
    using run_appends by blast
  then show ?thesis
    using assms by (simp add: outcome_def run_append first_settle_append)
qed

text \<open>A step sends a token request exactly when its event is a callback that carries a code.\<close>

lemma fetches_step:
  "fetches (effects (step config ev s)) =
     fetches (effects s) @
       (case exchanged_code ev of
          Some c \<Rightarrow> [exchange_request config c (redirectUri config)]
        | None \<Rightarrow> [])"
proof (cases ev)
  case (Request req)
  show ?thesis
    using handler_elsewhere [where req=req and config=config and s=s]
      handler_denied [where req=req and config=config and s=s]
      handler_missing [where req=req and config=config and s=s]
      handler_code [where req=req and config=config and s=s] Request
    by (cases "pathname req = ''/callback''"; cases "truthy (sp_get ''error'' (query req))";
        cases "truthy (sp_get ''code'' (query req))")
       (auto simp: fetches_append exchanged_code_def truthy_def split: option.splits)
next
  case (FetchSettled i r now)
  then show ?thesis
    using resume_unknown [where i=i and s=s and config=config and r=r and now=now]
      resume_effects [where i=i and s=s and config=config and r=r and now=now]
    by (cases "i \<in> set (awaiting s)")
       (auto simp: fetches_append exchanged_code_def split: sum.splits)
qed (auto simp: on_listening_def on_error_def on_timeout_def fetches_append exchanged_code_def)

lemma fetches_run:
  "fetches (effects (run config evs s)) =
     fetches (effects s) @
       map (\<lambda>c. exchange_request config c (redirectUri config)) (List.map_filter exchanged_code evs)"
proof (induction evs arbitrary: s)
  case Nil
  show ?case by simp
next
  case (Cons ev evs)
  show ?case
    by (simp add: Cons.IH fetches_step split: option.splits)
qed

lemma length_map_filter:
  "length (List.map_filter f xs) = length (filter (\<lambda>x. f x \<noteq> None) xs)"
  by (simp add: List.map_filter_def)

lemmas flow_eval = handler_def resume_def on_listening_def on_error_def on_timeout_def
  emit_def close_def init_flow_def callback_def sp_get_def truthy_def or_else_def Let_def
  outcome_def

subsection \<open>Token requests and callbacks\<close>

text \<open>
  Claim C1, as the code has it. The handler has no guard on a flow that is already
  exchanging or settled: every request to \<open>/callback\<close> that carries a code (and no
  error) sends one token request, so a flow has sent as many token requests as it has
  handled such callbacks. The promise keeps its first outcome: once the flow has settled,
  no later event changes what the caller gets.
\<close>

theorem posts_follow_code_callbacks:
  "length (fetches (effects (run config evs init_flow)))
     = length (filter (\<lambda>ev. exchanged_code ev \<noteq> None) evs)
   \<and> (outcome (run config evs init_flow) = Some out
        \<longrightarrow> outcome (run config (evs @ later) init_flow) = Some out)"
  by (simp add: fetches_run init_flow_def length_map_filter outcome_stable)

theorem posts_follow_code_callbacks_witness:
  "outcome (run strava_config
      [Listening, Request (callback [(''code'', ''abc123'')]),
       FetchSettled 0 (Response 200 [] (Inr (token_json ''T'' None (Some 3600)))) 1000] init_flow)
     = Some (Resolved \<lparr>accessToken = ''T'', refreshToken = None, expiresIn = Some 3600,
          expiresAt = Some 3601000, tokenType = None, scope = None\<rparr>)
   \<and> length (fetches (effects (run strava_config
      [Listening, Request (callback [(''code'', ''abc123'')]),
       FetchSettled 0 (Response 200 [] (Inr (token_json ''T'' None (Some 3600)))) 1000] init_flow))) = 1
   \<and> outcome (run strava_config
      ([Listening, Request (callback [(''code'', ''abc123'')]),
        FetchSettled 0 (Response 200 [] (Inr (token_json ''T'' None (Some 3600)))) 1000]
       @ [Request (callback [(''error'', ''access_denied'')]), Timeout]) init_flow)
     = Some (Resolved \<lparr>accessToken = ''T'', refreshToken = None, expiresIn = Some 3600,
          expiresAt = Some 3601000, tokenType = None, scope = None\<rparr>)"
proof -
  have h: "outcome (run strava_config
      [Listening, Request (callback [(''code'', ''abc123'')]),
       FetchSettled 0 (Response 200 [] (Inr (token_json ''T'' None (Some 3600)))) 1000] init_flow)
     = Some (Resolved \<lparr>accessToken = ''T'', refreshToken = None, expiresIn = Some 3600,
          expiresAt = Some 3601000, tokenType = None, scope = None\<rparr>)"
    by (simp add: flow_eval ok_def exchange_tokens_def with_expiry_def truthy_num_def token_json_def)
  show ?thesis
    using h posts_follow_code_callbacks [of strava_config
      "[Listening, Request (callback [(''code'', ''abc123'')]),
       FetchSettled 0 (Response 200 [] (Inr (token_json ''T'' None (Some 3600)))) 1000]"
      "Resolved \<lparr>accessToken = ''T'', refreshToken = None, expiresIn = Some 3600,
          expiresAt = Some 3601000, tokenType = None, scope = None\<rparr>"
      "[Request (callback [(''error'', ''access_denied'')]), Timeout]"]
    by (simp add: exchanged_code_def callback_def sp_get_def truthy_def)
qed

text \<open>
  Claim C1 as stated fails when a second callback with a code arrives while the first
  exchange is still awaited: after the first callback the server is still listening and
  the flow is unsettled, and the second callback sends a second token request.
\<close>

theorem double_callback_counterexample:
  "listening (run strava_config [Listening, Request (callback [(''code'', ''a'')])] init_flow)
   \<and> outcome (run strava_config [Listening, Request (callback [(''code'', ''a'')])] init_flow) = None
   \<and> fetches (effects (run strava_config
        [Listening, Request (callback [(''code'', ''a'')]), Request (callback [(''code'', ''b'')])]
        init_flow))
      = [exchange_request strava_config ''a'' (redirectUri strava_config),
         exchange_request strava_config ''b'' (redirectUri strava_config)]"
  by (simp add: flow_eval)

text \<open>
  Claim C6, as the code has it. A request to \<open>/callback\<close> whose \<open>error\<close> parameter is
  a non-empty string is answered with status 400, closes the server and calls
  \<open>reject\<close> with the OAuth error whose reason is \<open>error_description\<close> when that is a
  non-empty string and the \<open>error\<close> value otherwise. A request to \<open>/callback\<close> with no
  (or an empty) \<open>error\<close> and no (or an empty) \<open>code\<close> is answered with status 400,
  closes the server and calls \<open>reject\<close> with the missing-code error. In both cases the
  rejection is the outcome of a flow that had not settled before.
\<close>

theorem callback_rejections:
  assumes "pathname req = ''/callback''"
  shows "(\<forall>e. sp_get ''error'' (query req) = Some e \<and> e \<noteq> [] \<longrightarrow>
           effects (step config (Request req) s)
             = effects s @
               [Respond (served s) 400
                  (AuthorizationFailedPage
                     (case sp_get ''error_description'' (query req) of
                        None \<Rightarrow> e | Some d \<Rightarrow> if d = [] then e else d)),
                Close,
                Reject (OAuthError
                     (case sp_get ''error_description'' (query req) of
                        None \<Rightarrow> e | Some d \<Rightarrow> if d = [] then e else d))]
           \<and> (outcome s = None \<longrightarrow>
                outcome (step config (Request req) s)
                  = Some (Rejected (OAuthError
                     (case sp_get ''error_description'' (query req) of
                        None \<Rightarrow> e | Some d \<Rightarrow> if d = [] then e else d)))))
       \<and> (\<not> truthy (sp_get ''error'' (query req)) \<and> \<not> truthy (sp_get ''code'' (query req)) \<longrightarrow>
           effects (step config (Request req) s)
             = effects s @ [Respond (served s) 400 MissingCodePage, Close, Reject NoAuthorizationCode]
           \<and> (outcome s = None \<longrightarrow>
                outcome (step config (Request req) s) = Some (Rejected NoAuthorizationCode)))"
proof (intro conjI allI impI)
  fix e
  assume e: "sp_get ''error'' (query req) = Some e \<and> e \<noteq> []"
  then have t: "truthy (sp_get ''error'' (query req))" by (simp add: truthy_def)
  have r: "the (or_else (sp_get ''error_description'' (query req)) (sp_get ''error'' (query req)))
      = (case sp_get ''error_description'' (query req) of
           None \<Rightarrow> e | Some d \<Rightarrow> if d = [] then e else d)"
    using e by (simp add: or_else_def truthy_def split: option.splits)
  show eff: "effects (step config (Request req) s)
             = effects s @
               [Respond (served s) 400
                  (AuthorizationFailedPage
                     (case sp_get ''error_description'' (query req) of
                        None \<Rightarrow> e | Some d \<Rightarrow> if d = [] then e else d)),
                Close,
                Reject (OAuthError
                     (case sp_get ''error_description'' (query req) of
                        None \<Rightarrow> e | Some d \<Rightarrow> if d = [] then e else d))]"
    using handler_denied [OF assms t, of config s] r by simp
  assume "outcome s = None"
  then show "outcome (step config (Request req) s)
                  = Some (Rejected (OAuthError
                     (case sp_get ''error_description'' (query req) of
                        None \<Rightarrow> e | Some d \<Rightarrow> if d = [] then e else d)))"
    unfolding outcome_def eff by (simp add: first_settle_append)
next
  assume f: "\<not> truthy (sp_get ''error'' (query req)) \<and> \<not> truthy (sp_get ''code'' (query req))"
  show eff: "effects (step config (Request req) s)
             = effects s @ [Respond (served s) 400 MissingCodePage, Close, Reject NoAuthorizationCode]"
    using handler_missing [OF assms, of config s] f by simp
  assume "outcome s = None"
  then show "outcome (step config (Request req) s) = Some (Rejected NoAuthorizationCode)"
    unfolding outcome_def eff by (simp add: first_settle_append)
qed

theorem callback_rejections_witness:
  "pathname (callback [(''error'', ''access_denied''), (''error_description'', ''User denied'')]) = ''/callback''
   \<and> outcome init_flow = None
   \<and> outcome (step strava_config
        (Request (callback [(''error'', ''access_denied''), (''error_description'', ''User denied'')]))
        init_flow) = Some (Rejected (OAuthError ''User denied''))
   \<and> outcome (step strava_config
        (Request (callback [(''error'', ''access_denied'')])) init_flow)
      = Some (Rejected (OAuthError ''access_denied''))
   \<and> outcome (step strava_config (Request (callback [])) init_flow)
      = Some (Rejected NoAuthorizationCode)"
proof -
  have p: "\<And>q. pathname (callback q) = ''/callback''" by (simp add: callback_def)
  have o: "outcome init_flow = None" by (simp add: outcome_def init_flow_def)
  show ?thesis
    using p o
      callback_rejections [OF p, of "[(''error'', ''access_denied''), (''error_description'', ''User denied'')]"
        strava_config init_flow]
      callback_rejections [OF p, of "[(''error'', ''access_denied'')]" strava_config init_flow]
      callback_rejections [OF p, of "[]" strava_config init_flow]
    by (simp add: callback_def sp_get_def truthy_def)
qed

text \<open>
  Claim C6 as stated fails for a callback that carries an \<open>error\<close> parameter with an
  empty value (\<open>/callback?error=&error_description=User+denied\<close>): the flow is rejected
  with the missing-code error, not with the OAuth error.
\<close>

theorem empty_error_counterexample:
  "outcome (run strava_config
      [Listening, Request (callback [(''error'', []), (''error_description'', ''User denied'')])]
      init_flow) = Some (Rejected NoAuthorizationCode)"
  by (simp add: flow_eval)

subsection \<open>Closing the server\<close>

lemma step_closes_first:
  assumes "first_settle (effects s) = None"
    and "first_settle (effects (step config ev s)) = Some out"
  shows "(\<exists>m. out = Rejected (CallbackServerFailed m)) \<or> closed_before_settle (effects (step config ev s))"
proof (cases ev)
  case Listening
  then show ?thesis using assms by (simp add: on_listening_def first_settle_append)
next
  case (ServerError m)
  then show ?thesis using assms by (auto simp: on_error_def first_settle_append)
next
  case (Request req)
  show ?thesis
    using assms Request
      handler_elsewhere [where req=req and config=config and s=s]
      handler_denied [where req=req and config=config and s=s]
      handler_missing [where req=req and config=config and s=s]
      handler_code [where req=req and config=config and s=s]
    by (cases "pathname req = ''/callback''"; cases "truthy (sp_get ''error'' (query req))";
        cases "truthy (sp_get ''code'' (query req))")
       (auto simp: first_settle_append closed_before_settle_append)
next
  case (FetchSettled i r now)
  then show ?thesis
    using assms resume_unknown [where i=i and s=s and config=config and r=r and now=now]
      resume_effects [where i=i and s=s and config=config and r=r and now=now]
    by (cases "i \<in> set (awaiting s)")
       (auto simp: first_settle_append closed_before_settle_append split: sum.splits)
next
  case Timeout
  then show ?thesis
    using assms by (simp add: on_timeout_def first_settle_append closed_before_settle_append)
qed

lemma settled_step:
  assumes "first_settle (effects s) = Some out"
  shows "first_settle (effects (step config ev s)) = Some out"
    and "closed_before_settle (effects (step config ev s)) = closed_before_settle (effects s)"
proof -
  obtain es where es: "effects (step config ev s) = effects s @ es"
    using step_appends by blast
  show "first_settle (effects (step config ev s)) = Some out"
    using assms es by (simp add: first_settle_append)
  show "closed_before_settle (effects (step config ev s)) = closed_before_settle (effects s)"
    using assms es by (simp add: closed_before_settle_append)
qed

lemma step_keeps_close_first:
  assumes inv: "\<And>out. first_settle (effects s) = Some out \<Longrightarrow>
      (\<exists>m. out = Rejected (CallbackServerFailed m)) \<or> closed_before_settle (effects s)"
    and now: "first_settle (effects (step config ev s)) = Some out"
  shows "(\<exists>m. out = Rejected (CallbackServerFailed m)) \<or> closed_before_settle (effects (step config ev s))"
proof (cases "first_settle (effects s)")
  case None
  then show ?thesis using now by (rule step_closes_first)
next
  case (Some out')
  have "out' = out"
    using settled_step(1) [OF Some, of config ev] now by simp
  then show ?thesis
    using inv [OF Some] settled_step(2) [OF Some, of config ev] by simp
qed

lemma run_closes_first:
  assumes "\<And>out. first_settle (effects s) = Some out \<Longrightarrow>
      (\<exists>m. out = Rejected (CallbackServerFailed m)) \<or> closed_before_settle (effects s)"
    and "first_settle (effects (run config evs s)) = Some out"
  shows "(\<exists>m. out = Rejected (CallbackServerFailed m)) \<or> closed_before_settle (effects (run config evs s))"
  using assms
proof (induction evs arbitrary: s out)
  case Nil
  then show ?case by simp
next
  case (Cons ev evs)
  show ?case
    unfolding run.simps
  proof (rule Cons.IH)
    fix out'
    assume "first_settle (effects (step config ev s)) = Some out'"
    then show "(\<exists>m. out' = Rejected (CallbackServerFailed m)) \<or> closed_before_settle (effects (step config ev s))"
      using Cons.prems(1) by (rule step_keeps_close_first [rotated])
  next
    show "first_settle (effects (run config evs (step config ev s))) = Some out"
      using Cons.prems(2) by simp
  qed
qed

lemma close_first:
  assumes "outcome (run config evs init_flow) = Some out"
    and "\<forall>m. out \<noteq> Rejected (CallbackServerFailed m)"
  shows "closed_before_settle (effects (run config evs init_flow))"
proof -
  have "(\<exists>m. out = Rejected (CallbackServerFailed m))
        \<or> closed_before_settle (effects (run config evs init_flow))"
  proof (rule run_closes_first)
    fix out'
    assume "first_settle (effects init_flow) = Some out'"
    then show "(\<exists>m. out' = Rejected (CallbackServerFailed m)) \<or> closed_before_settle (effects init_flow)"
      by (simp add: init_flow_def)
  next
    show "first_settle (effects (run config evs init_flow)) = Some out"
      using assms(1) by (simp add: outcome_def)
  qed
  then show ?thesis using assms(2) by blast
qed

text \<open>
  Claim C4, as the code has it. Whenever the flow has settled with anything but the
  failure to start the callback server (tokens, an OAuth error, a missing code, a failed
  token exchange, the timeout), \<open>server.close()\<close> was called before the first call of
  \<open>resolve\<close> or \<open>reject\<close>. When the server reports an error, the flow calls
  \<open>reject\<close> with the start-up failure and does nothing else: the server is not closed
  on that path. How often the server is closed is left open.
\<close>

theorem close_before_settle:
  "(outcome (run config evs init_flow) = Some out
      \<and> (\<forall>m. out \<noteq> Rejected (CallbackServerFailed m))
    \<longrightarrow> closed_before_settle (effects (run config evs init_flow)))
   \<and> step config (ServerError msg) s = s\<lparr>effects := effects s @ [Reject (CallbackServerFailed msg)]\<rparr>"
  using close_first [of config evs out] by (simp add: on_error_def emit_def)

theorem close_before_settle_witness:
  "outcome (run strava_config
      [Listening, Request (callback [(''code'', ''abc123'')]),
       FetchSettled 0 (Response 500 ''boom'' (Inl ''not JSON'')) 1000] init_flow)
     = Some (Rejected (TokenExchangeFailed 500 ''boom''))
   \<and> closed_before_settle (effects (run strava_config
      [Listening, Request (callback [(''code'', ''abc123'')]),
       FetchSettled 0 (Response 500 ''boom'' (Inl ''not JSON'')) 1000] init_flow))
   \<and> effects (step strava_config (ServerError ''EADDRINUSE'') init_flow)
     = [Reject (CallbackServerFailed ''EADDRINUSE'')]"
proof -
  have h: "outcome (run strava_config
      [Listening, Request (callback [(''code'', ''abc123'')]),
       FetchSettled 0 (Response 500 ''boom'' (Inl ''not JSON'')) 1000] init_flow)
     = Some (Rejected (TokenExchangeFailed 500 ''boom''))"
    by (simp add: flow_eval ok_def)
  show ?thesis
    using h close_before_settle [of strava_config
      "[Listening, Request (callback [(''code'', ''abc123'')]),
       FetchSettled 0 (Response 500 ''boom'' (Inl ''not JSON'')) 1000]"
      "Rejected (TokenExchangeFailed 500 ''boom'')" "''EADDRINUSE''" init_flow]
    by (simp add: init_flow_def)
qed

text \<open>
  Claim C4 as stated fails on two paths. When the server fails to start, the promise is
  rejected and \<open>server.close()\<close> has not been called. And the timer is never cancelled:
  after a flow that was denied, the timer closes the server a second time.
\<close>

theorem close_counterexample:
  "outcome (run strava_config [ServerError ''EADDRINUSE''] init_flow)
     = Some (Rejected (CallbackServerFailed ''EADDRINUSE''))
   \<and> closes (effects (run strava_config [ServerError ''EADDRINUSE''] init_flow)) = 0
   \<and> closes (effects (run strava_config
        [Listening, Request (callback [(''error'', ''access_denied'')]), Timeout] init_flow)) = 2"
  by (simp add: flow_eval closes_def)

subsection \<open>The timeout\<close>

lemma idle_step:
  assumes "idle ev"
  shows "first_settle (effects (step config ev s)) = first_settle (effects s)"
proof (cases ev)
  case (Request req)
  then show ?thesis
    using assms handler_elsewhere [where req=req and config=config and s=s]
    by (simp add: idle_def first_settle_append split: option.splits)
qed (use assms in \<open>auto simp: idle_def on_listening_def first_settle_append split: option.splits\<close>)

lemma idle_run:
  "\<forall>ev\<in>set evs. idle ev \<Longrightarrow> first_settle (effects (run config evs s)) = first_settle (effects s)"
  by (induction evs arbitrary: s) (auto simp: idle_step)

text \<open>
  Claim C7. If, from the start of the flow until the timer fires, the flow sees nothing
  but the server's bind and requests to paths other than \<open>/callback\<close>, then it is
  rejected with the timeout error, and the server is closed and no longer listening. In
  any state the timer closes the server and calls \<open>reject\<close> with the timeout error. A
  request to a path other than \<open>/callback\<close> is answered with 404 and \<open>Not found\<close>, and
  changes nothing else but the count of requests: the outcome stays as it was.
\<close>

theorem timeout_when_idle:
  "((\<forall>ev\<in>set evs. idle ev) \<longrightarrow>
      outcome (run config (evs @ [Timeout]) init_flow) = Some (Rejected FlowTimedOut)
      \<and> \<not> listening (run config (evs @ [Timeout]) init_flow))
   \<and> effects (step config Timeout s) = effects s @ [Close, Reject FlowTimedOut]
   \<and> \<not> listening (step config Timeout s)
   \<and> (pathname req \<noteq> ''/callback'' \<longrightarrow>
        step config (Request req) s
          = s\<lparr>served := Suc (served s), effects := effects s @ [Respond (served s) 404 NotFound]\<rparr>
        \<and> outcome (step config (Request req) s) = outcome s)"
proof -
  have "outcome (run config (evs @ [Timeout]) init_flow) = Some (Rejected FlowTimedOut)"
    if "\<forall>ev\<in>set evs. idle ev"
    using idle_run [OF that, of config init_flow]
    by (simp add: run_append outcome_def on_timeout_def first_settle_append init_flow_def)
  moreover have "\<not> listening (run config (evs @ [Timeout]) init_flow)"
    by (simp add: run_append on_timeout_def)
  moreover have "effects (step config Timeout s) = effects s @ [Close, Reject FlowTimedOut]"
    "\<not> listening (step config Timeout s)"
    by (simp_all add: on_timeout_def)
  moreover have "step config (Request req) s
          = s\<lparr>served := Suc (served s), effects := effects s @ [Respond (served s) 404 NotFound]\<rparr>
        \<and> outcome (step config (Request req) s) = outcome s"
    if "pathname req \<noteq> ''/callback''"
    using that
    by (simp add: handler_elsewhere outcome_def first_settle_append split: option.splits)
  ultimately show ?thesis by blast
qed

theorem timeout_when_idle_witness:
  "idle Listening \<and> idle (Request \<lparr>pathname = ''/favicon.ico'', query = []\<rparr>)
   \<and> outcome (run strava_config
        ([Listening, Request \<lparr>pathname = ''/favicon.ico'', query = []\<rparr>] @ [Timeout]) init_flow)
      = Some (Rejected FlowTimedOut)
   \<and> \<not> listening (run strava_config
        ([Listening, Request \<lparr>pathname = ''/favicon.ico'', query = []\<rparr>] @ [Timeout]) init_flow)
   \<and> pathname \<lparr>pathname = ''/favicon.ico'', query = []\<rparr> \<noteq> ''/callback''
   \<and> effects (step strava_config (Request \<lparr>pathname = ''/favicon.ico'', query = []\<rparr>) init_flow)
      = [Respond 0 404 NotFound]
   \<and> outcome (step strava_config (Request \<lparr>pathname = ''/favicon.ico'', query = []\<rparr>) init_flow) = None"
proof -
  have h: "\<forall>ev\<in>set [Listening, Request \<lparr>pathname = ''/favicon.ico'', query = []\<rparr>]. idle ev"
    by (simp add: idle_def)
  show ?thesis
    using h timeout_when_idle [of "[Listening, Request \<lparr>pathname = ''/favicon.ico'', query = []\<rparr>]"
        strava_config init_flow "\<lparr>pathname = ''/favicon.ico'', query = []\<rparr>"]
    by (simp add: init_flow_def outcome_def)
qed

subsection \<open>The token exchange\<close>

lemma default_port_digits:
  "digit_char 8 = CHR ''8''" "digit_char 7 = CHR ''7''"
  "digit_char 6 = CHR ''6''" "digit_char 5 = CHR ''5''"
  by (simp_all add: digit_char_def char_of_def bit_Suc_0_iff)

lemma show_default_port: "show_nat 8765 = ''8765''"
  by (simp add: show_nat.simps default_port_digits)

text \<open>
  Claim C8, as the code has it. The token exchange is a form-encoded POST to \<open>tokenUrl\<close>
  whose body is exactly \<open>client_id\<close>, \<open>client_secret\<close>, \<open>code\<close>,
  \<open>grant_type=authorization_code\<close> and \<open>redirect_uri\<close>, the last being the flow's
  redirect URI (\<open>redirectUri\<close>, line 50). That is the value the flow sets as
  \<open>redirect_uri\<close> in the authorization URL; the URL that is opened carries it unless
  the additional parameters name \<open>redirect_uri\<close>, and then it carries their value. The
  token requests of a flow are those of its callbacks that carry a code, in their order:
  none is sent before its callback. When a suspended handler gets a response that is not
  2xx, it answers 500, closes the server and calls \<open>reject\<close> with the exchange error
  carrying the status and the body; that error is the outcome of a flow that had not
  settled before.
\<close>

theorem token_exchange:
  "req_method (exchange_request config code (redirectUri config)) = ''POST''
   \<and> req_url (exchange_request config code (redirectUri config)) = tokenUrl config
   \<and> req_content_type (exchange_request config code (redirectUri config))
       = ''application/x-www-form-urlencoded''
   \<and> req_body (exchange_request config code (redirectUri config))
       = [(''client_id'', clientId config), (''client_secret'', clientSecret config),
          (''code'', code), (''grant_type'', ''authorization_code''),
          (''redirect_uri'', redirectUri config)]
   \<and> sp_get ''redirect_uri'' (searchParams (scope_param config (standard_params config)))
       = Some (redirectUri config)
   \<and> sp_get ''redirect_uri'' (searchParams (authUrl config))
       = (case (case additionalParams config of
                  None \<Rightarrow> None | Some ps \<Rightarrow> map_of (rev ps) ''redirect_uri'') of
            Some v \<Rightarrow> Some v
          | None \<Rightarrow> Some (redirectUri config))
   \<and> fetches (effects (run config evs init_flow))
       = map (\<lambda>c. exchange_request config c (redirectUri config)) (List.map_filter exchanged_code evs)
   \<and> (i \<in> set (awaiting s) \<and> \<not> ok st \<longrightarrow>
        effects (step config (FetchSettled i (Response st txt js) now) s)
          = effects s @ [Respond i 500 (ExchangeFailedPage (message (TokenExchangeFailed st txt))),
                         Close, Reject (TokenExchangeFailed st txt)]
        \<and> (outcome s = None \<longrightarrow>
             outcome (step config (FetchSettled i (Response st txt js) now) s)
               = Some (Rejected (TokenExchangeFailed st txt))))"
proof -
  have a: "sp_get ''redirect_uri'' (searchParams (scope_param config (standard_params config)))
       = Some (redirectUri config)"
    by (simp add: scope_param_def standard_params_def url_get_url_set)
  have b: "sp_get ''redirect_uri'' (searchParams (authUrl config))
       = (case (case additionalParams config of
                  None \<Rightarrow> None | Some ps \<Rightarrow> map_of (rev ps) ''redirect_uri'') of
            Some v \<Rightarrow> Some v
          | None \<Rightarrow> Some (redirectUri config))"
    unfolding authUrl_lookup by (rule option.case_cong) simp_all
  have c: "fetches (effects (run config evs init_flow))
       = map (\<lambda>c. exchange_request config c (redirectUri config)) (List.map_filter exchanged_code evs)"
    by (simp add: fetches_run init_flow_def)
  have d: "effects (step config (FetchSettled i (Response st txt js) now) s)
          = effects s @ [Respond i 500 (ExchangeFailedPage (message (TokenExchangeFailed st txt))),
                         Close, Reject (TokenExchangeFailed st txt)]"
    if "i \<in> set (awaiting s) \<and> \<not> ok st"
    using that resume_effects [of i s config "Response st txt js" now] by simp
  have e: "outcome (step config (FetchSettled i (Response st txt js) now) s)
               = Some (Rejected (TokenExchangeFailed st txt))"
    if "i \<in> set (awaiting s) \<and> \<not> ok st" "outcome s = None"
    using that(2) unfolding outcome_def d [OF that(1)] by (simp add: first_settle_append)
  show ?thesis
    using a b c d e by (simp add: exchange_request_def)
qed

theorem token_exchange_witness:
  "fetches (effects (run strava_config [Listening, Request (callback [(''code'', ''abc123'')])] init_flow))
     = [exchange_request strava_config ''abc123'' (redirectUri strava_config)]
   \<and> req_body (exchange_request strava_config ''abc123'' (redirectUri strava_config))
     = [(''client_id'', ''12345''), (''client_secret'', ''s3cret''), (''code'', ''abc123''),
        (''grant_type'', ''authorization_code''), (''redirect_uri'', redirectUri strava_config)]
   \<and> sp_get ''redirect_uri'' (searchParams (authUrl strava_config)) = Some (redirectUri strava_config)
   \<and> sp_get ''redirect_uri'' (searchParams (authUrl override_config)) = Some ''https://example.com/cb''
   \<and> \<not> ok 400
   \<and> outcome (step strava_config (FetchSettled 0 (Response 400 ''bad'' (Inl ''x'')) 1000)
       (run strava_config [Listening, Request (callback [(''code'', ''abc123'')])] init_flow))
     = Some (Rejected (TokenExchangeFailed 400 ''bad''))"
proof -
  have s: "awaiting (run strava_config [Listening, Request (callback [(''code'', ''abc123'')])] init_flow) = [0]"
    "outcome (run strava_config [Listening, Request (callback [(''code'', ''abc123'')])] init_flow) = None"
    by (simp_all add: flow_eval)
  have k: "additionalParams strava_config = Some [(''approval_prompt'', ''auto'')]"
    "additionalParams override_config = Some [(''redirect_uri'', ''https://example.com/cb'')]"
    "clientId strava_config = ''12345''" "clientSecret strava_config = ''s3cret''"
    by (simp_all add: strava_config_def override_config_def)
  have o: "\<not> ok 400" by (simp add: ok_def)
  show ?thesis
    using s k o
      token_exchange [of strava_config "''abc123''"
        "[Listening, Request (callback [(''code'', ''abc123'')])]" 0
        "run strava_config [Listening, Request (callback [(''code'', ''abc123'')])] init_flow"
        400 "''bad''" "Inl ''x''" 1000]
      token_exchange [of override_config "''abc123''" "[]" 0 init_flow 400 "''bad''" "Inl ''x''" 1000]
    by (simp add: List.map_filter_simps exchanged_code_def callback_def sp_get_def truthy_def)
qed

text \<open>
  Claim C8 as stated fails for a configuration whose additional parameters name
  \<open>redirect_uri\<close>: the authorization URL that the flow opens carries the value given
  there, while the token request carries the local redirect URI.
\<close>

theorem redirect_override_counterexample:
  "effects (run override_config [Listening, Request (callback [(''code'', ''abc123'')])] init_flow)
     = [OpenBrowser (authUrl override_config),
        Fetch (exchange_request override_config ''abc123'' (redirectUri override_config))]
   \<and> sp_get ''redirect_uri'' (searchParams (authUrl override_config)) = Some ''https://example.com/cb''
   \<and> map_of (req_body (exchange_request override_config ''abc123'' (redirectUri override_config)))
        ''redirect_uri'' = Some ''http://localhost:8765/callback''"
  by (simp add: flow_eval authUrl_def additional_def scope_param_def standard_params_def
      url_set_def override_config_def strava_config_def exchange_request_def redirectUri_def
      port_of_def show_default_port)

section \<open>Properties of the settings file\<close>

subsection \<open>Lines\<close>

lemma split_nl_nonempty [simp]: "split_nl s \<noteq> []"
  by (induction s) auto

lemma split_nl_no_newline: "l \<in> set (split_nl s) \<Longrightarrow> newline \<notin> set l"
proof (induction s arbitrary: l)
  case Nil
  then show ?case by simp
next
  case (Cons c cs)
  show ?case
  proof (cases "c = newline")
    case True
    then show ?thesis using Cons by auto
  next
    case False
    obtain h t where ht: "split_nl cs = h # t"
      by (cases "split_nl cs") auto
    then show ?thesis
      using Cons False by auto
  qed
qed

lemma split_nl_line: "newline \<notin> set l \<Longrightarrow> split_nl l = [l]"
  by (induction l) auto

lemma split_nl_append: "newline \<notin> set l \<Longrightarrow> split_nl (l @ newline # rest) = l # split_nl rest"
  by (induction l) auto

lemma split_nl_join:
  "ls \<noteq> [] \<Longrightarrow> \<forall>l\<in>set ls. newline \<notin> set l \<Longrightarrow>
   split_nl (join [newline] ls @ [newline]) = ls @ [[]]"
proof (induction "[newline]" ls rule: join.induct)
  case 1
  then show ?case by simp
next
  case (2 x)
  then show ?case using split_nl_append [of x "[]"] by simp
next
  case (3 x y zs)
  then show ?case
    using split_nl_append [of x "join [newline] (y # zs) @ [newline]"] by simp
qed

lemma last_join:
  "ls \<noteq> [] \<Longrightarrow> last ls \<noteq> [] \<Longrightarrow> join sep ls \<noteq> [] \<and> last (join sep ls) = last (last ls)"
  by (induction sep ls rule: join.induct) auto

subsection \<open>Popping blank lines\<close>

lemma pop_trailing_split:
  "\<exists>bl. ls = pop_trailing ls @ bl \<and> (\<forall>l\<in>set bl. trim l = [])"
proof (induction ls rule: pop_trailing.induct)
  case (1 ls)
  show ?case
  proof (cases "ls \<noteq> [] \<and> trim (last ls) = []")
    case True
    then obtain bl where bl: "butlast ls = pop_trailing (butlast ls) @ bl" "\<forall>l\<in>set bl. trim l = []"
      using 1 by blast
    have "ls = pop_trailing (butlast ls) @ (bl @ [last ls])"
      using True bl(1) by (metis append_assoc append_butlast_last_id)
    moreover have "\<forall>l\<in>set (bl @ [last ls]). trim l = []"
      using True bl(2) by simp
    moreover have "pop_trailing ls = pop_trailing (butlast ls)"
      using True by (subst pop_trailing.simps) simp
    ultimately show ?thesis by metis
  next
    case False
    then have "pop_trailing ls = ls" by (subst pop_trailing.simps) auto
    then show ?thesis by simp
  qed
qed

lemma pop_trailing_subset: "set (pop_trailing ls) \<subseteq> set ls"
proof -
  obtain bl where "ls = pop_trailing ls @ bl" using pop_trailing_split by blast
  then show ?thesis by (metis set_append sup_ge1)
qed

lemma pop_trailing_last:
  "pop_trailing ls \<noteq> [] \<Longrightarrow> trim (last (pop_trailing ls)) \<noteq> []"
proof (induction ls rule: pop_trailing.induct)
  case (1 ls)
  show ?case
  proof (cases "ls \<noteq> [] \<and> trim (last ls) = []")
    case True
    then have "pop_trailing ls = pop_trailing (butlast ls)"
      by (subst pop_trailing.simps) simp
    then show ?thesis using 1 True by simp
  next
    case False
    then have "pop_trailing ls = ls" by (subst pop_trailing.simps) auto
    then show ?thesis using False 1(2) by auto
  qed
qed

lemma trim_nonempty: "trim l \<noteq> [] \<Longrightarrow> l \<noteq> []"
  by (auto simp: trim_def)

subsection \<open>Keys\<close>

lemma startsWith_iff: "startsWith s p \<longleftrightarrow> (\<exists>r. s = p @ r)"
  unfolding startsWith_def
  by (metis append_eq_conv_conj append_take_drop_id)

lemma takeWhile_until: "c \<notin> set xs \<Longrightarrow> takeWhile (\<lambda>x. x \<noteq> c) (xs @ c # r) = xs"
  by (induction xs) auto

lemma first_occurrence:
  assumes "c \<notin> set xs" "c \<notin> set ys" "xs @ c # r = ys @ c # r'"
  shows "xs = ys"
proof -
  have "takeWhile (\<lambda>x. x \<noteq> c) (xs @ c # r) = xs"
    using assms(1) by (rule takeWhile_until)
  moreover have "takeWhile (\<lambda>x. x \<noteq> c) (ys @ c # r') = ys"
    using assms(2) by (rule takeWhile_until)
  ultimately show ?thesis using assms(3) by simp
qed

lemma mentions_assignment:
  assumes "CHR ''='' \<notin> set k" "CHR ''='' \<notin> set k'" "CHR '' '' \<notin> set k'"
  shows "mentions k (assignment (k', v)) \<longleftrightarrow> k = k'"
proof
  assume "mentions k (assignment (k', v))"
  then consider r where "k' @ CHR ''='' # v = k @ CHR ''='' # r"
    | r where "k' @ CHR ''='' # v = (k @ '' '') @ CHR ''='' # r"
    by (auto simp: mentions_def assignment_def startsWith_iff)
  then show "k = k'"
  proof cases
    case 1
    then show ?thesis using first_occurrence [OF assms(2) assms(1)] by blast
  next
    case 2
    have "CHR ''='' \<notin> set (k @ '' '')" using assms(1) by simp
    then have "k' = k @ '' ''" using first_occurrence [OF assms(2) _ 2] by blast
    then show ?thesis using assms(3) by simp
  qed
next
  assume "k = k'"
  then show "mentions k (assignment (k', v))"
    by (simp add: mentions_def assignment_def startsWith_def)
qed

lemma mentions_empty [simp]: "\<not> mentions k []"
  by (simp add: mentions_def startsWith_def)

lemma filter_key_distinct:
  "distinct (map fst xs) \<Longrightarrow> (k, v) \<in> set xs \<Longrightarrow> filter (\<lambda>p. fst p = k) xs = [(k, v)]"
proof (induction xs)
  case Nil
  then show ?case by simp
next
  case (Cons p xs)
  show ?case
  proof (cases "p = (k, v)")
    case True
    have "filter (\<lambda>p. fst p = k) xs = []"
      using Cons.prems(1) True by (auto simp: filter_empty_conv intro: rev_image_eqI)
    then show ?thesis using True by simp
  next
    case False
    then have "fst p \<noteq> k" using Cons.prems by (auto intro: rev_image_eqI)
    then show ?thesis using Cons False by auto
  qed
qed

lemma kept_lines_split:
  "\<exists>bl. filter (\<lambda>line. \<not> list_ex (\<lambda>key. mentions key line) keys)
           (case old of None \<Rightarrow> [] | Some content \<Rightarrow> split_nl content)
         = kept_lines keys old @ bl
       \<and> (\<forall>l\<in>set bl. trim l = [])"
proof (cases old)
  case None
  then show ?thesis by (simp add: kept_lines_def)
next
  case (Some content)
  then show ?thesis
    using pop_trailing_split
      [of "filter (\<lambda>line. \<not> list_ex (\<lambda>key. mentions key line) keys) (split_nl content)"]
    by (simp add: kept_lines_def)
qed

lemma kept_lines_facts:
  assumes "l \<in> set (kept_lines keys old)"
  shows "newline \<notin> set l" and "k \<in> set keys \<Longrightarrow> \<not> mentions k l"
proof -
  obtain content where c: "old = Some content"
    using assms by (cases old) (auto simp: kept_lines_def)
  define F where
    "F = filter (\<lambda>line. \<not> list_ex (\<lambda>key. mentions key line) keys) (split_nl content)"
  have "l \<in> set (pop_trailing F)"
    using assms c by (simp add: kept_lines_def F_def)
  moreover have "set (pop_trailing F) \<subseteq> set F"
    by (rule pop_trailing_subset)
  ultimately have "l \<in> set F" by (rule rev_subsetD)
  then have l: "l \<in> set (split_nl content)" "\<not> list_ex (\<lambda>key. mentions key l) keys"
    by (simp_all add: F_def)
  show "newline \<notin> set l" using l(1) by (rule split_nl_no_newline)
  show "k \<in> set keys \<Longrightarrow> \<not> mentions k l" using l(2) by (auto simp: list_ex_iff)
qed

lemma kept_lines_last:
  "kept_lines keys old \<noteq> [] \<Longrightarrow> trim (last (kept_lines keys old)) \<noteq> []"
  by (cases old) (auto simp: kept_lines_def pop_trailing_last)

lemmas env_eval = updateEnvFile_def kept_lines_def mentions_def startsWith_def assignment_def
  trim_def is_space_def newline_def pop_trailing.simps Let_def

subsection \<open>What is kept and what is written\<close>

text \<open>
  Claim C9, as the code has it. Let the keys of the updates be distinct and free of
  \<open>=\<close>, spaces and newlines, and the values free of newlines. Then the lines of the old
  file that do not start with \<open>key=\<close> or \<open>key =\<close> for an updated key are kept as they
  are and in their order, but for blank lines at their end, which are dropped; the lines
  of the written file are the kept lines, then one line \<open>key=value\<close> per update, then
  the empty line after the last newline; for each update exactly one line of the written
  file starts with \<open>key=\<close> or \<open>key =\<close>, namely \<open>key=value\<close>; and the written file
  ends with a newline that no other newline precedes.
\<close>

theorem updateEnvFile_frame:
  assumes "distinct (map fst updates)"
    and "\<forall>k\<in>set (map fst updates). CHR ''='' \<notin> set k \<and> CHR '' '' \<notin> set k \<and> newline \<notin> set k"
    and "\<forall>v\<in>set (map snd updates). newline \<notin> set v"
  shows "\<exists>kept blank.
           filter (\<lambda>line. \<not> list_ex (\<lambda>key. mentions key line) (map fst updates))
             (case old of None \<Rightarrow> [] | Some content \<Rightarrow> split_nl content) = kept @ blank
         \<and> (\<forall>l\<in>set blank. trim l = [])
         \<and> (kept = [] \<or> trim (last kept) \<noteq> [])
         \<and> split_nl (updateEnvFile updates old)
             = (if kept = [] \<and> updates = [] then [[]] else kept @ map assignment updates) @ [[]]
         \<and> (\<forall>(k, v)\<in>set updates.
               filter (mentions k) (split_nl (updateEnvFile updates old)) = [k @ ''='' @ v])
         \<and> (\<exists>body. updateEnvFile updates old = body @ [newline]
               \<and> (body = [] \<or> last body \<noteq> newline))"
proof -
  define keys where "keys = map fst updates"
  define kept where "kept = kept_lines keys old"
  define ls where "ls = kept @ map assignment updates"
  have written: "updateEnvFile updates old = join [newline] ls @ [newline]"
    by (simp add: updateEnvFile_def ls_def kept_def keys_def)
  obtain blank where blank:
    "filter (\<lambda>line. \<not> list_ex (\<lambda>key. mentions key line) keys)
       (case old of None \<Rightarrow> [] | Some content \<Rightarrow> split_nl content) = kept @ blank"
    "\<forall>l\<in>set blank. trim l = []"
    using kept_lines_split [of keys old] unfolding kept_def by blast
  have nonblank: "kept = [] \<or> trim (last kept) \<noteq> []"
    using kept_lines_last [of keys old] unfolding kept_def by blast
  have eq_ne: "CHR ''='' \<noteq> newline" by (simp add: newline_def)
  have no_nl: "\<forall>l\<in>set ls. newline \<notin> set l"
  proof
    fix l assume "l \<in> set ls"
    then consider "l \<in> set kept" | k v where "(k, v) \<in> set updates" "l = assignment (k, v)"
      by (auto simp: ls_def)
    then show "newline \<notin> set l"
    proof cases
      case 1
      then show ?thesis using kept_lines_facts(1) kept_def by blast
    next
      case 2
      have "newline \<notin> set k" using assms(2) 2(1) by force
      moreover have "newline \<notin> set v" using assms(3) 2(1) by force
      ultimately show ?thesis using 2(2) eq_ne by (auto simp: assignment_def)
    qed
  qed
  have lines: "split_nl (updateEnvFile updates old)
      = (if kept = [] \<and> updates = [] then [[]] else kept @ map assignment updates) @ [[]]"
  proof (cases "ls = []")
    case True
    then show ?thesis unfolding written by (simp add: ls_def)
  next
    case False
    then show ?thesis
      unfolding written using split_nl_join [OF False no_nl] by (auto simp: ls_def)
  qed
  have once: "filter (mentions k) (split_nl (updateEnvFile updates old)) = [k @ ''='' @ v]"
    if kv: "(k, v) \<in> set updates" for k v
  proof -
    have k: "k \<in> set keys" using kv by (force simp: keys_def)
    have 1: "filter (mentions k) kept = []"
      using kept_lines_facts(2) [OF _ k] by (auto simp: filter_empty_conv kept_def)
    have "mentions k (assignment p) \<longleftrightarrow> fst p = k" if "p \<in> set updates" for p
    proof -
      have "CHR ''='' \<notin> set k" using assms(2) kv by force
      moreover have "CHR ''='' \<notin> set (fst p)" "CHR '' '' \<notin> set (fst p)"
        using assms(2) that by auto
      ultimately show ?thesis
        using mentions_assignment [of k "fst p" "snd p"] by auto
    qed
    then have "filter (mentions k) (map assignment updates)
        = map assignment (filter (\<lambda>p. fst p = k) updates)"
      by (simp add: filter_map comp_def cong: filter_cong)
    then have 2: "filter (mentions k) (map assignment updates) = [k @ ''='' @ v]"
      using filter_key_distinct [OF assms(1) kv] by (simp add: assignment_def)
    have "updates \<noteq> []" using kv by auto
    then show ?thesis unfolding lines using 1 2 by simp
  qed
  have ending: "\<exists>body. updateEnvFile updates old = body @ [newline]
      \<and> (body = [] \<or> last body \<noteq> newline)"
  proof (cases "ls = []")
    case True
    then show ?thesis unfolding written by simp
  next
    case False
    have "last ls \<noteq> [] \<and> last (last ls) \<noteq> newline"
    proof (cases "updates = []")
      case True
      then have "ls = kept" "kept \<noteq> []" using False by (auto simp: ls_def)
      then have "trim (last ls) \<noteq> []" using kept_lines_last kept_def by auto
      then have "last ls \<noteq> []" by (rule trim_nonempty)
      moreover have "newline \<notin> set (last ls)" using no_nl False by auto
      ultimately show ?thesis using last_in_set by metis
    next
      case False
      obtain k v where kv: "last updates = (k, v)" by (cases "last updates")
      have in_up: "(k, v) \<in> set updates" using False kv last_in_set by metis
      have "last ls = k @ CHR ''='' # v"
        using False kv by (simp add: ls_def last_map assignment_def)
      moreover have "newline \<notin> set v" using assms(3) in_up by force
      ultimately show ?thesis using eq_ne by (cases v rule: rev_cases) auto
    qed
    then have "last (join [newline] ls) \<noteq> newline"
      using last_join [OF False, of "[newline]"] by simp
    then show ?thesis unfolding written by blast
  qed
  have all_once: "\<forall>(k, v)\<in>set updates.
      filter (mentions k) (split_nl (updateEnvFile updates old)) = [k @ ''='' @ v]"
    using once by blast
  show ?thesis
    apply (rule exI [of _ kept])
    apply (rule exI [of _ blank])
    using blank nonblank lines all_once ending unfolding keys_def
    apply (intro conjI)
        apply assumption+
    done
qed

theorem updateEnvFile_frame_witness:
  "distinct (map fst [(''A'', ''1'')])
   \<and> CHR ''='' \<notin> set ''A'' \<and> CHR '' '' \<notin> set ''A'' \<and> newline \<notin> set ''A''
   \<and> newline \<notin> set ''1''
   \<and> filter (mentions ''A'')
        (split_nl (updateEnvFile [(''A'', ''1'')] (Some ''B=2\<newline>A=0\<newline>  \<newline>''))) = [''A=1'']
   \<and> updateEnvFile [(''A'', ''1'')] (Some ''B=2\<newline>A=0\<newline>  \<newline>'') = ''B=2\<newline>A=1\<newline>''"
proof -
  have h1: "distinct (map fst [(''A'', ''1'')])" by simp
  have h2: "\<forall>k\<in>set (map fst [(''A'', ''1'')]).
      CHR ''='' \<notin> set k \<and> CHR '' '' \<notin> set k \<and> newline \<notin> set k"
    by (simp add: newline_def)
  have h3: "\<forall>v\<in>set (map snd [(''A'', ''1'')]). newline \<notin> set v"
    by (simp add: newline_def)
  have w: "updateEnvFile [(''A'', ''1'')] (Some ''B=2\<newline>A=0\<newline>  \<newline>'') = ''B=2\<newline>A=1\<newline>''"
    by (simp add: env_eval)
  have "filter (mentions ''A'')
        (split_nl (updateEnvFile [(''A'', ''1'')] (Some ''B=2\<newline>A=0\<newline>  \<newline>''))) = [''A=1'']"
    using updateEnvFile_frame [OF h1 h2 h3, of "Some ''B=2\<newline>A=0\<newline>  \<newline>''"] by auto
  then show ?thesis
    using h2 h3 w by simp
qed

text \<open>
  Claim C9 as stated fails on each of these calls. A value that ends in a newline, on a
  file that ends in a line of spaces: the line of spaces is not kept, and the written file
  ends with two newlines. Keys \<open>A\<close> and \<open>A=B\<close>, or keys \<open>A\<close> and \<open>A\<close> followed by
  a space: two lines of the written file assign to \<open>A\<close>. A key that contains a
  newline: no line of the written file is its \<open>key=value\<close>.
\<close>

theorem updateEnvFile_counterexample:
  "updateEnvFile [(''A'', ''1\<newline>'')] (Some ''B=2\<newline>  \<newline>'') = ''B=2\<newline>A=1\<newline>\<newline>''
   \<and> filter (mentions ''A'') (split_nl (updateEnvFile [(''A'', ''1''), (''A=B'', ''2'')] None))
       = [''A=1'', ''A=B=2'']
   \<and> filter (mentions ''A'') (split_nl (updateEnvFile [(''A'', ''1''), (''A '', ''2'')] None))
       = [''A=1'', ''A =2'']
   \<and> split_nl (updateEnvFile [(''A\<newline>B'', ''1'')] None) = [''A'', ''B=1'', []]"
  by (simp add: env_eval)

end
